theory Spec2Isabelle
  imports Main "HOL-Library.Sublist"
begin

section \<open>Text: Python \<open>str\<close> over the code points U+0000 .. U+00FF\<close>

text \<open>
  A Python \<open>str\<close> is a sequence of code points. The model is \<open>string\<close>, one \<open>char\<close> per
  code point, so it covers the texts whose code points are below 256 (ASCII and Latin-1);
  \<open>length\<close> is Python's \<open>len\<close>.
\<close>

definition is_space :: "char \<Rightarrow> bool" where
  \<comment> \<open>\<open>str.isspace\<close> on one code point; the same class is \<open>\s\<close> in \<open>re\<close> on a \<open>str\<close> pattern.\<close>
  "is_space c = (let n = (of_char c :: nat) in
     (9 \<le> n \<and> n \<le> 13) \<or> (28 \<le> n \<and> n \<le> 32) \<or> n = 133 \<or> n = 160)"

definition lower_char :: "char \<Rightarrow> char" where
  \<comment> \<open>A..Z and the Latin-1 capitals U+00C0 .. U+00DE (U+00D7 is the multiplication sign).\<close>
  "lower_char c = (let n = (of_char c :: nat) in
     if (65 \<le> n \<and> n \<le> 90) \<or> (192 \<le> n \<and> n \<le> 222 \<and> n \<noteq> 215)
     then char_of (n + 32) else c)"

definition lower :: "string \<Rightarrow> string" where
  \<comment> \<open>\<open>s.lower()\<close>\<close>
  "lower s = map lower_char s"

definition strip :: "string \<Rightarrow> string" where
  \<comment> \<open>\<open>s.strip()\<close>: whitespace removed at both ends.\<close>
  "strip s = rev (dropWhile is_space (rev (dropWhile is_space s)))"

definition lower_strip :: "string \<Rightarrow> string" where
  \<comment> \<open>\<open>kw.lower().strip()\<close>, the normal form of a keyword.\<close>
  "lower_strip kw = strip (lower kw)"

section \<open>\<open>deduplicate\<close> and the merge in \<open>main\<close>\<close>

text \<open>
  \<^verbatim>\<open>
  def deduplicate(keywords):
      seen = set()
      result = []
      for kw in keywords:
          kw_lower = kw.lower().strip()
          if kw_lower and kw_lower not in seen:
              seen.add(kw_lower)
              result.append(kw_lower)
      return result
  \<close>
  The loop threads \<open>seen\<close> and \<open>result\<close>.
\<close>

fun deduplicate_loop :: "string list \<Rightarrow> string set \<Rightarrow> string list \<Rightarrow> string list" where
  "deduplicate_loop [] seen result = result"
| "deduplicate_loop (kw # keywords) seen result =
     (let kw_lower = strip (lower kw) in
      if kw_lower \<noteq> [] \<and> kw_lower \<notin> seen
      then deduplicate_loop keywords (insert kw_lower seen) (result @ [kw_lower])
      else deduplicate_loop keywords seen result)"

definition deduplicate :: "string list \<Rightarrow> string list" where
  "deduplicate keywords = deduplicate_loop keywords {} []"

definition merge :: "string list \<Rightarrow> string list \<Rightarrow> string list" where
  \<comment> \<open>\<open>deduplicate(daw_keywords + expanded_daw)\<close> in \<open>main\<close>.\<close>
  "merge base expanded = deduplicate (base @ expanded)"

text \<open>
  First occurrences of a list, skipping what was seen before: the specification against
  which the loop is proved.
\<close>

fun firsts :: "'a list \<Rightarrow> 'a set \<Rightarrow> 'a list" where
  "firsts [] seen = []"
| "firsts (x # xs) seen =
     (if x \<in> seen then firsts xs seen else x # firsts xs (insert x seen))"


section \<open>Exceptions\<close>

datatype exn =
    JSONDecodeError
  | AttributeError
  | OtherException
  | OutsideAlphabet

text \<open>
  \<open>JSONDecodeError\<close> is the exception the inner handler of \<open>expand_keywords\<close> catches;
  \<open>AttributeError\<close> is raised by \<open>.strip()\<close> on a missing content; \<open>OtherException\<close> stands
  for any other \<open>Exception\<close> (a failure of the client's transport, or \<open>RecursionError\<close>
  and \<open>ValueError\<close> of the decoder at the interpreter's limits). \<open>OutsideAlphabet\<close> is not
  a Python exception: the decoder model answers it where a JSON string holds an escape
  \<open>\uXXXX\<close> above \<open>\u00ff\<close>, a code point that \<open>char\<close> cannot hold; such a payload
  lies outside the model, and what the model returns for it says nothing about the program.
\<close>

section \<open>\<open>json.loads\<close>\<close>

text \<open>
  \<open>json.loads\<close> belongs to Python's standard library. Its result is modelled by the
  datatype \<open>json\<close>: a number keeps its literal (Python builds an \<open>int\<close> or a \<open>float\<close>,
  neither a \<open>str\<close> nor a \<open>list\<close>), an object keeps its members in order.
  The functions that depend on the decoder take it as the parameter \<open>loads\<close>; the
  decoder \<open>json_loads\<close> below follows CPython's scanner (whitespace is space, tab, line
  feed and carriage return; strings are strict: no control character, escapes
  \<open>\" \\ \/ \b \f \n \r \t \uXXXX\<close>; numbers without leading zero; the literals \<open>null\<close>,
  \<open>true\<close>, \<open>false\<close>, \<open>NaN\<close>, \<open>Infinity\<close>, \<open>-Infinity\<close>; no trailing comma; nothing but
  whitespace after the value) and is used to evaluate concrete payloads. The limits of
  the interpreter (the depth of recursion, the 4300 digits of an integer literal), at
  which the library raises \<open>RecursionError\<close> or \<open>ValueError\<close>, are not in \<open>json_loads\<close>;
  for the functions below they are outcomes of \<open>loads\<close> like any other.
\<close>

datatype json =
    JNull
  | JBool bool
  | JNumber string
  | JString string
  | JArray "json list"
  | JObject "(string \<times> json) list"

datatype token =
    TLBracket | TRBracket | TLBrace | TRBrace | TComma | TColon
  | TScalar json

definition is_digit :: "char \<Rightarrow> bool" where
  "is_digit c = (c \<in> set ''0123456789'')"

definition hex_value :: "char \<Rightarrow> nat option" where
  "hex_value c = (let n = (of_char c :: nat) in
     if 48 \<le> n \<and> n \<le> 57 then Some (n - 48)
     else if 97 \<le> n \<and> n \<le> 102 then Some (n - 87)
     else if 65 \<le> n \<and> n \<le> 70 then Some (n - 55)
     else None)"

definition decode_uXXXX :: "string \<Rightarrow> nat option" where
  \<comment> \<open>The four hexadecimal digits after \<open>\u\<close>.\<close>
  "decode_uXXXX s =
     (case map hex_value (take 4 s) of
        [Some a, Some b, Some c, Some d] \<Rightarrow> Some (((a * 16 + b) * 16 + c) * 16 + d)
      | _ \<Rightarrow> None)"

definition backslash :: "char \<Rightarrow> char option" where
  \<comment> \<open>The one-character escapes.\<close>
  "backslash e =
     (if e = CHR 0x22 then Some (CHR 0x22)
      else if e = CHR 0x5C then Some (CHR 0x5C)
      else if e = CHR ''/'' then Some (CHR ''/'')
      else if e = CHR ''b'' then Some (CHR 0x08)
      else if e = CHR ''f'' then Some (CHR 0x0C)
      else if e = CHR ''n'' then Some (CHR 0x0A)
      else if e = CHR ''r'' then Some (CHR 0x0D)
      else if e = CHR ''t'' then Some (CHR 0x09)
      else None)"

text \<open>
  \<open>scanstring\<close> reads a string literal from just after its opening quote and returns the
  decoded string with the number of characters read, closing quote included.
\<close>

fun scanstring :: "string \<Rightarrow> exn + (string \<times> nat)" where
  "scanstring [] = Inl JSONDecodeError"
| "scanstring (c # cs) =
     (if c = CHR 0x22 then Inr ([], 1)
      else if c = CHR 0x5C then
        (case cs of
           [] \<Rightarrow> Inl JSONDecodeError
         | e # es \<Rightarrow>
             if e = CHR ''u'' then
               (case decode_uXXXX es of
                  None \<Rightarrow> Inl JSONDecodeError
                | Some n \<Rightarrow>
                    if 256 \<le> n then Inl OutsideAlphabet
                    else (case scanstring (drop 4 es) of
                            Inl x \<Rightarrow> Inl x
                          | Inr (s, k) \<Rightarrow> Inr (char_of n # s, k + 6)))
             else
               (case backslash e of
                  None \<Rightarrow> Inl JSONDecodeError
                | Some ch \<Rightarrow>
                    (case scanstring es of
                       Inl x \<Rightarrow> Inl x
                     | Inr (s, k) \<Rightarrow> Inr (ch # s, k + 2))))
      else if (of_char c :: nat) < 32 then Inl JSONDecodeError
      else (case scanstring cs of
              Inl x \<Rightarrow> Inl x
            | Inr (s, k) \<Rightarrow> Inr (c # s, k + 1)))"

text \<open>
  The length of the number literal at the head of a text: an optional minus, the integer
  digits (a lone \<open>0\<close>, or a digit from 1 to 9 and more digits), an optional fraction, an
  optional exponent; a fraction or an exponent without digits is not part of the number.
\<close>

definition scan_int :: "string \<Rightarrow> nat option" where
  "scan_int s =
     (case s of
        [] \<Rightarrow> None
      | c # cs \<Rightarrow>
          if c = CHR ''0'' then Some 1
          else if is_digit c then Some (1 + length (takeWhile is_digit cs))
          else None)"

definition scan_frac :: "string \<Rightarrow> nat" where
  "scan_frac s =
     (case s of
        c # d # ds \<Rightarrow>
          if c = CHR ''.'' \<and> is_digit d then 2 + length (takeWhile is_digit ds) else 0
      | _ \<Rightarrow> 0)"

definition scan_exp :: "string \<Rightarrow> nat" where
  "scan_exp s =
     (case s of
        [] \<Rightarrow> 0
      | c # cs \<Rightarrow>
          if c = CHR ''e'' \<or> c = CHR ''E'' then
            (let sgn = (if take 1 cs = ''+'' \<or> take 1 cs = ''-'' then 1 else 0);
                 ds = length (takeWhile is_digit (drop sgn cs))
             in if ds = 0 then 0 else 1 + sgn + ds)
          else 0)"

definition match_number :: "string \<Rightarrow> nat option" where
  "match_number s =
     (let sgn = (if take 1 s = ''-'' then 1 else 0) in
      case scan_int (drop sgn s) of
        None \<Rightarrow> None
      | Some i \<Rightarrow>
          (let f = scan_frac (drop (sgn + i) s);
               e = scan_exp (drop (sgn + i + f) s)
           in Some (sgn + i + f + e)))"

definition emit :: "token \<Rightarrow> exn + token list \<Rightarrow> exn + token list" where
  "emit t r = (case r of Inl e \<Rightarrow> Inl e | Inr ts \<Rightarrow> Inr (t # ts))"

text \<open>The payload as tokens; whitespace between tokens is skipped.\<close>

function lex :: "string \<Rightarrow> exn + token list" where
  "lex [] = Inr []"
| "lex (c # cs) =
     (if c = CHR '' '' \<or> c = CHR 0x09 \<or> c = CHR 0x0A \<or> c = CHR 0x0D then lex cs
      else if c = CHR ''['' then emit TLBracket (lex cs)
      else if c = CHR '']'' then emit TRBracket (lex cs)
      else if c = CHR ''{'' then emit TLBrace (lex cs)
      else if c = CHR ''}'' then emit TRBrace (lex cs)
      else if c = CHR '','' then emit TComma (lex cs)
      else if c = CHR '':'' then emit TColon (lex cs)
      else if c = CHR 0x22 then
        (case scanstring cs of
           Inl e \<Rightarrow> Inl e
         | Inr (s, k) \<Rightarrow> emit (TScalar (JString s)) (lex (drop k cs)))
      else if take 4 (c # cs) = ''null'' then emit (TScalar JNull) (lex (drop 3 cs))
      else if take 4 (c # cs) = ''true'' then emit (TScalar (JBool True)) (lex (drop 3 cs))
      else if take 5 (c # cs) = ''false'' then emit (TScalar (JBool False)) (lex (drop 4 cs))
      else if take 3 (c # cs) = ''NaN'' then emit (TScalar (JNumber ''NaN'')) (lex (drop 2 cs))
      else if take 8 (c # cs) = ''Infinity'' then
        emit (TScalar (JNumber ''Infinity'')) (lex (drop 7 cs))
      else if take 9 (c # cs) = ''-Infinity'' then
        emit (TScalar (JNumber ''-Infinity'')) (lex (drop 8 cs))
      else
        (case match_number (c # cs) of
           None \<Rightarrow> Inl JSONDecodeError
         | Some n \<Rightarrow> emit (TScalar (JNumber (take n (c # cs)))) (lex (drop (n - 1) cs))))"
  by pat_completeness auto
termination
  by (relation "measure length") auto

text \<open>
  The grammar, as a machine with a stack of open containers. Each entry of the stack says
  what the container holds so far and what may come next: after \<open>[\<close> a value or \<open>]\<close>, after
  a value \<open>,\<close> or the closing bracket, after \<open>,\<close> a value (an array) or a key (an object),
  after a key \<open>:\<close>, after \<open>:\<close> a value.
\<close>

datatype ctx =
    ArrOpen
  | ArrValue "json list"
  | ArrComma "json list"
  | ObjOpen
  | ObjKey "(string \<times> json) list" string
  | ObjColon "(string \<times> json) list" string
  | ObjValue "(string \<times> json) list"
  | ObjComma "(string \<times> json) list"

datatype pstate = Expecting "ctx list" | Finished json

fun deliver :: "json \<Rightarrow> ctx list \<Rightarrow> pstate option" where
  "deliver v [] = Some (Finished v)"
| "deliver v (ArrOpen # st) = Some (Expecting (ArrValue [v] # st))"
| "deliver v (ArrComma items # st) = Some (Expecting (ArrValue (items @ [v]) # st))"
| "deliver v (ObjColon ms k # st) = Some (Expecting (ObjValue (ms @ [(k, v)]) # st))"
| "deliver v (ObjOpen # st) =
     (case v of JString k \<Rightarrow> Some (Expecting (ObjKey [] k # st)) | _ \<Rightarrow> None)"
| "deliver v (ObjComma ms # st) =
     (case v of JString k \<Rightarrow> Some (Expecting (ObjKey ms k # st)) | _ \<Rightarrow> None)"
| "deliver v _ = None"

fun value_position :: "ctx list \<Rightarrow> bool" where
  "value_position [] = True"
| "value_position (ArrOpen # st) = True"
| "value_position (ArrComma items # st) = True"
| "value_position (ObjColon ms k # st) = True"
| "value_position _ = False"

fun step :: "pstate \<Rightarrow> token \<Rightarrow> pstate option" where
  "step (Finished v) t = None"
| "step (Expecting st) (TScalar v) = deliver v st"
| "step (Expecting st) TLBracket =
     (if value_position st then Some (Expecting (ArrOpen # st)) else None)"
| "step (Expecting st) TLBrace =
     (if value_position st then Some (Expecting (ObjOpen # st)) else None)"
| "step (Expecting (ArrOpen # st)) TRBracket = deliver (JArray []) st"
| "step (Expecting (ArrValue items # st)) TRBracket = deliver (JArray items) st"
| "step (Expecting (ObjOpen # st)) TRBrace = deliver (JObject []) st"
| "step (Expecting (ObjValue ms # st)) TRBrace = deliver (JObject ms) st"
| "step (Expecting (ArrValue items # st)) TComma = Some (Expecting (ArrComma items # st))"
| "step (Expecting (ObjValue ms # st)) TComma = Some (Expecting (ObjComma ms # st))"
| "step (Expecting (ObjKey ms k # st)) TColon = Some (Expecting (ObjColon ms k # st))"
| "step (Expecting st) t = None"

fun run :: "pstate \<Rightarrow> token list \<Rightarrow> pstate option" where
  "run p [] = Some p"
| "run p (t # ts) = (case step p t of None \<Rightarrow> None | Some p' \<Rightarrow> run p' ts)"

definition json_loads :: "string \<Rightarrow> exn + json" where
  "json_loads s =
     (case lex s of
        Inl e \<Rightarrow> Inl e
      | Inr ts \<Rightarrow>
          (case run (Expecting []) ts of
             Some (Finished v) \<Rightarrow> Inr v
           | _ \<Rightarrow> Inl JSONDecodeError))"

section \<open>The regular expressions of \<open>expand_keywords\<close>\<close>

text \<open>
  \<^verbatim>\<open>re.sub(r'```json\s*', '', content)\<close>: every occurrence, from the left, of the fence
  with its language tag and the whitespace after it is removed; the scan goes on after
  the removed text.
\<close>

function sub_fence_json :: "string \<Rightarrow> string" where
  "sub_fence_json [] = []"
| "sub_fence_json (c # cs) =
     (if take 7 (c # cs) = ''```json''
      then sub_fence_json (dropWhile is_space (drop 6 cs))
      else c # sub_fence_json cs)"
  by pat_completeness auto
termination
  by (relation "measure length")
     (auto simp: less_Suc_eq_le intro!: order_trans [OF length_dropWhile_le])

text \<open>\<^verbatim>\<open>re.sub(r'```\s*', '', content)\<close>\<close>

function sub_fence :: "string \<Rightarrow> string" where
  "sub_fence [] = []"
| "sub_fence (c # cs) =
     (if take 3 (c # cs) = ''```''
      then sub_fence (dropWhile is_space (drop 2 cs))
      else c # sub_fence cs)"
  by pat_completeness auto
termination
  by (relation "measure length")
     (auto simp: less_Suc_eq_le intro!: order_trans [OF length_dropWhile_le])

text \<open>
  \<^verbatim>\<open>re.findall(r'"([^"]+)"', content)\<close>: at a quotation mark followed by at least one
  other character and then a quotation mark, the characters between the two are a match
  and the scan goes on after the closing mark; anywhere else it moves one character on.
\<close>

function findall_quoted :: "string \<Rightarrow> string list" where
  "findall_quoted [] = []"
| "findall_quoted (c # cs) =
     (if c = CHR 0x22
         \<and> takeWhile (\<lambda>x. x \<noteq> CHR 0x22) cs \<noteq> []
         \<and> dropWhile (\<lambda>x. x \<noteq> CHR 0x22) cs \<noteq> []
      then takeWhile (\<lambda>x. x \<noteq> CHR 0x22) cs
             # findall_quoted (tl (dropWhile (\<lambda>x. x \<noteq> CHR 0x22) cs))
      else findall_quoted cs)"
  by pat_completeness auto
termination
  by (relation "measure length")
     (auto simp: less_Suc_eq_le le_trans [OF diff_le_self length_dropWhile_le])

section \<open>\<open>expand_keywords\<close>\<close>

text \<open>
  \<^verbatim>\<open>
  content = response.choices[0].message.content.strip()
  content = re.sub(r'```json\s*', '', content)
  content = re.sub(r'```\s*', '', content)
  content = content.strip()
  \<close>
\<close>

definition clean_content :: "string \<Rightarrow> string" where
  "clean_content raw = strip (sub_fence (sub_fence_json (strip raw)))"

text \<open>
  \<^verbatim>\<open>
  normalized = []
  for kw in keywords_list:
      if isinstance(kw, str):
          kw = kw.lower().strip()
          if kw and len(kw) > 1:
              normalized.append(kw)
  return normalized
  \<close>
\<close>

fun normalize_loop :: "json list \<Rightarrow> string list \<Rightarrow> string list" where
  "normalize_loop [] normalized = normalized"
| "normalize_loop (JString kw # keywords_list) normalized =
     (let kw' = strip (lower kw) in
      if kw' \<noteq> [] \<and> 1 < length kw'
      then normalize_loop keywords_list (normalized @ [kw'])
      else normalize_loop keywords_list normalized)"
| "normalize_loop (_ # keywords_list) normalized = normalize_loop keywords_list normalized"

text \<open>
  \<^verbatim>\<open>
  keywords_list = re.findall(r'"([^"]+)"', content)
  return [kw.lower().strip() for kw in keywords_list
          if kw.strip() and len(kw.strip()) > 1]
  \<close>
\<close>

definition fallback_extract :: "string \<Rightarrow> string list" where
  "fallback_extract content =
     map (\<lambda>kw. strip (lower kw))
       (filter (\<lambda>kw. strip kw \<noteq> [] \<and> 1 < length (strip kw)) (findall_quoted content))"

text \<open>
  The statements from the first \<open>.strip()\<close> to \<open>return []\<close>, on the content of the
  response. An exception of the decoder other than \<open>JSONDecodeError\<close> leaves the inner
  \<open>try\<close>.
\<close>

definition parse_content :: "(string \<Rightarrow> exn + json) \<Rightarrow> string \<Rightarrow> exn + string list" where
  "parse_content loads raw =
     (let content = clean_content raw in
      case loads content of
        Inr (JArray keywords_list) \<Rightarrow> Inr (normalize_loop keywords_list [])
      | Inr _ \<Rightarrow> Inr []
      | Inl JSONDecodeError \<Rightarrow> Inr (fallback_extract content)
      | Inl e \<Rightarrow> Inl e)"


text \<open>The strings among the elements of a decoded array, in order.\<close>

fun json_strings :: "json list \<Rightarrow> string list" where
  "json_strings [] = []"
| "json_strings (JString s # vs) = s # json_strings vs"
| "json_strings (_ # vs) = json_strings vs"

fun is_array :: "json \<Rightarrow> bool" where
  "is_array (JArray items) = True"
| "is_array _ = False"

section \<open>Properties of the text operations\<close>

lemma of_char_lower_char:
  "(of_char (lower_char c) :: nat) =
     (let n = of_char c in
      if (65 \<le> n \<and> n \<le> 90) \<or> (192 \<le> n \<and> n \<le> 222 \<and> n \<noteq> 215) then n + 32 else n)"
  by (auto simp: lower_char_def Let_def)

lemma lower_char_idem: "lower_char (lower_char c) = lower_char c"
  unfolding lower_char_def[of "lower_char c"] of_char_lower_char by (auto simp: Let_def)

lemma is_space_lower_char: "is_space (lower_char c) = is_space c"
  unfolding is_space_def of_char_lower_char by (auto simp: Let_def)

lemma lower_idem: "lower (lower s) = lower s"
  by (simp add: lower_def lower_char_idem)

lemma length_lower: "length (lower s) = length s"
  by (simp add: lower_def)

lemma dropWhile_space_lower:
  "dropWhile is_space (lower s) = lower (dropWhile is_space s)"
  by (induction s) (simp_all add: lower_def is_space_lower_char)

lemma lower_strip_commute: "lower (strip s) = strip (lower s)"
proof -
  have "rev (lower s) = lower (rev s)" for s
    by (simp add: lower_def rev_map)
  then show ?thesis
    by (simp add: strip_def dropWhile_space_lower)
qed

lemma strip_fixed:
  assumes "s = [] \<or> (\<not> is_space (hd s) \<and> \<not> is_space (last s))"
  shows "strip s = s"
proof (cases s)
  case Nil
  then show ?thesis by (simp add: strip_def)
next
  case (Cons c cs)
  with assms have h: "\<not> is_space (hd s)" and l: "\<not> is_space (last s)" by auto
  from h Cons have "dropWhile is_space s = s" by simp
  moreover have "dropWhile is_space (rev s) = rev s"
  proof (cases "rev s")
    case Nil
    then show ?thesis by simp
  next
    case (Cons d ds)
    with l have "\<not> is_space d" by (metis hd_rev list.sel(1) rev_rev_ident)
    with Cons show ?thesis by simp
  qed
  ultimately show ?thesis by (simp add: strip_def)
qed

lemma strip_ends: "strip s = [] \<or> (\<not> is_space (hd (strip s)) \<and> \<not> is_space (last (strip s)))"
proof (cases "strip s = []")
  case True
  then show ?thesis by simp
next
  case False
  let ?d = "dropWhile is_space s" and ?r = "dropWhile is_space (rev (dropWhile is_space s))"
  from False have r: "?r \<noteq> []" by (simp add: strip_def)
  then have 1: "\<not> is_space (hd ?r)" by (rule hd_dropWhile)
  from r have "rev ?d \<noteq> []" by (metis dropWhile.simps(1))
  then have "?d \<noteq> []" by simp
  then have 2: "\<not> is_space (hd ?d)" by (rule hd_dropWhile)
  obtain p where p: "rev ?d = p @ ?r"
    by (metis takeWhile_dropWhile_id)
  then have "?d = rev ?r @ rev p" by (metis rev_append rev_rev_ident)
  with r have "hd ?d = hd (rev ?r)" by (metis hd_append2 rev_is_Nil_conv)
  with 2 have 3: "\<not> is_space (hd (rev ?r))" by simp
  from r 1 have "\<not> is_space (last (rev ?r))" by (simp add: last_rev)
  with 3 show ?thesis by (simp add: strip_def)
qed

lemma strip_idem: "strip (strip s) = strip s"
  by (rule strip_fixed) (rule strip_ends)

lemma lower_strip_idem: "lower_strip (lower_strip s) = lower_strip s"
  by (simp add: lower_strip_def lower_strip_commute lower_idem strip_idem)

section \<open>The loop of \<open>deduplicate\<close> computes first occurrences\<close>

lemma deduplicate_loop_firsts:
  "deduplicate_loop kws seen result =
     result @ firsts (filter (\<lambda>k. k \<noteq> []) (map lower_strip kws)) seen"
  by (induction kws arbitrary: seen result) (simp_all add: Let_def lower_strip_def)

lemma deduplicate_firsts:
  "deduplicate kws = firsts (filter (\<lambda>k. k \<noteq> []) (map lower_strip kws)) {}"
  by (simp add: deduplicate_def deduplicate_loop_firsts)

lemma set_firsts: "set (firsts xs seen) = set xs - seen"
  by (induction xs arbitrary: seen) auto

lemma distinct_firsts: "distinct (firsts xs seen)"
  by (induction xs arbitrary: seen) (auto simp: set_firsts)

lemma firsts_append: "firsts (xs @ ys) seen = firsts xs seen @ firsts ys (seen \<union> set xs)"
  by (induction xs arbitrary: seen) (auto simp: insert_absorb)

lemma firsts_filter: "firsts ys (seen \<union> S) = filter (\<lambda>y. y \<notin> S) (firsts ys seen)"
proof (induction ys arbitrary: seen)
  case Nil
  show ?case by simp
next
  case (Cons y ys)
  have "firsts ys (insert y (seen \<union> S)) = filter (\<lambda>y. y \<notin> S) (firsts ys (insert y seen))"
    using Cons [of "insert y seen"] by simp
  moreover have "y \<in> S \<Longrightarrow> insert y (seen \<union> S) = seen \<union> S"
    by auto
  ultimately show ?case
    using Cons [of seen] by auto
qed


lemma subseq_firsts: "subseq (firsts xs seen) xs"
  by (induction xs arbitrary: seen) auto

lemma set_deduplicate: "set (deduplicate kws) = lower_strip ` set kws - {[]}"
  by (auto simp: deduplicate_firsts set_firsts)

lemma distinct_deduplicate: "distinct (deduplicate kws)"
  by (simp add: deduplicate_firsts distinct_firsts)

lemma deduplicate_normal: "k \<in> set (deduplicate kws) \<Longrightarrow> lower_strip k = k"
  by (auto simp: set_deduplicate lower_strip_idem)

lemma map_lower_strip_deduplicate: "map lower_strip (deduplicate kws) = deduplicate kws"
  by (simp add: map_idI deduplicate_normal)

lemma deduplicate_append:
  "deduplicate (xs @ ys) =
     deduplicate xs @ filter (\<lambda>k. k \<notin> set (deduplicate xs)) (deduplicate ys)"
proof -
  let ?f = "\<lambda>ks. filter (\<lambda>k. k \<noteq> []) (map lower_strip ks)"
  have "set (deduplicate xs) = set (?f xs)"
    by (simp add: deduplicate_firsts set_firsts)
  moreover have "firsts (?f ys) ({} \<union> set (?f xs)) =
      filter (\<lambda>k. k \<notin> set (?f xs)) (firsts (?f ys) {})"
    by (rule firsts_filter)
  ultimately show ?thesis
    by (simp add: deduplicate_firsts firsts_append)
qed




lemma firsts_ignore:
  "set ys \<inter> T = {} \<Longrightarrow> firsts ys (seen \<union> T) = firsts ys seen"
proof -
  assume d: "set ys \<inter> T = {}"
  have "set (firsts ys seen) \<subseteq> set ys"
    by (simp add: set_firsts)
  with d have "filter (\<lambda>y. y \<notin> T) (firsts ys seen) = firsts ys seen"
    by (auto simp: filter_id_conv)
  then show ?thesis
    by (simp add: firsts_filter)
qed

lemma new_keywords_firsts:
  "filter (\<lambda>k. k \<notin> set (deduplicate B)) (deduplicate E) =
     firsts (filter (\<lambda>k. k \<noteq> []) (map lower_strip E)) (lower_strip ` set B)"
proof -
  let ?ys = "filter (\<lambda>k. k \<noteq> []) (map lower_strip E)"
  have "filter (\<lambda>k. k \<notin> set (deduplicate B)) (deduplicate E) =
      firsts ?ys ({} \<union> set (deduplicate B))"
    by (simp only: firsts_filter deduplicate_firsts)
  also have "\<dots> = firsts ?ys (lower_strip ` set B - {[]})"
    by (simp add: set_deduplicate)
  also have "\<dots> = firsts ?ys ((lower_strip ` set B - {[]}) \<union> {[]})"
    by (rule firsts_ignore [symmetric]) simp
  also have "\<dots> = firsts ?ys (lower_strip ` set B \<union> {[]})"
    by (rule arg_cong [where f = "firsts ?ys"]) auto
  also have "\<dots> = firsts ?ys (lower_strip ` set B)"
    by (rule firsts_ignore) simp
  finally show ?thesis .
qed

section \<open>The merged list\<close>

text \<open>
  Claim C2, as amended. The merged list never holds the empty string, and every entry is
  in normal form. \<open>deduplicate\<close> tests only that the normal form is non-empty; it has no
  length filter. So a base keyword is dropped exactly when its normal form is empty, and
  one whose normal form is a single character (such as the note name \<open>C\<close>) stays.
\<close>

theorem merge_drops_only_empty:
  "[] \<notin> set (merge B E) \<and>
   (\<forall>k \<in> set (merge B E). lower_strip k = k) \<and>
   (\<forall>b \<in> set B. lower_strip b \<in> set (merge B E) \<longleftrightarrow> lower_strip b \<noteq> [])"
  by (auto simp: merge_def set_deduplicate lower_strip_idem)

theorem merge_drops_only_empty_witness:
  "[] \<notin> set (merge [''C'', ''  '', ''chord''] [''Chords'']) \<and>
   lower_strip ''C'' \<in> set (merge [''C'', ''  '', ''chord''] [''Chords'']) \<and>
   lower_strip ''  '' \<notin> set (merge [''C'', ''  '', ''chord''] [''Chords''])"
proof -
  have "lower_strip ''C'' \<noteq> []" and "lower_strip ''  '' = []"
    by code_simp+
  then show ?thesis
    using merge_drops_only_empty [of "[''C'', ''  '', ''chord'']" "[''Chords'']"]
    by simp
qed

text \<open>
  Claim C2 as stated fails: merging the base list \<open>["C", "chord"]\<close> with \<open>["chords"]\<close>
  keeps the one-character keyword \<open>c\<close>.
\<close>

theorem merge_keeps_single_character:
  "merge [''C'', ''chord''] [''chords''] = [''c'', ''chord'', ''chords''] \<and>
   length (strip ''c'') \<le> 1"
  by code_simp

text \<open>
  Claim C3. The merged list is the deduplicated base list, followed by the deduplicated
  expansion without the keywords the base already gave. The first part is the list of
  first occurrences of the non-empty normal forms of the base keywords, the second the
  list of first occurrences, in the expansion, of the non-empty normal forms that no base
  keyword has; so every non-empty normal form of a base or expanded keyword is in the
  result, and nothing else. The surviving base keywords are a subsequence of the
  normalised base list, and the surviving new keywords a subsequence of the normalised
  expansion, so both keep their order. For the base \<open>["track", "fx"]\<close> and the
  expansion \<open>["track", "reverb", "fx", "echo"]\<close> the result is
  \<open>["track", "fx", "reverb", "echo"]\<close>.
\<close>

theorem merge_base_first:
  "merge B E = deduplicate B @ filter (\<lambda>k. k \<notin> set (deduplicate B)) (deduplicate E) \<and>
   subseq (deduplicate B) (map lower_strip B) \<and>
   subseq (filter (\<lambda>k. k \<notin> set (deduplicate B)) (deduplicate E)) (map lower_strip E) \<and>
   deduplicate B = firsts (filter (\<lambda>k. k \<noteq> []) (map lower_strip B)) {} \<and>
   filter (\<lambda>k. k \<notin> set (deduplicate B)) (deduplicate E) =
     firsts (filter (\<lambda>k. k \<noteq> []) (map lower_strip E)) (lower_strip ` set B) \<and>
   set (merge B E) = lower_strip ` (set B \<union> set E) - {[]} \<and>
   merge [''track'', ''fx''] [''track'', ''reverb'', ''fx'', ''echo'']
     = [''track'', ''fx'', ''reverb'', ''echo'']"
proof (intro conjI)
  have sub: "subseq (deduplicate ks) (map lower_strip ks)" for ks
  proof -
    have "subseq (deduplicate ks) (filter (\<lambda>k. k \<noteq> []) (map lower_strip ks))"
      unfolding deduplicate_firsts by (rule subseq_firsts)
    also have "subseq (filter (\<lambda>k. k \<noteq> []) (map lower_strip ks)) (map lower_strip ks)"
      by (rule subseq_filter_left)
    finally show ?thesis .
  qed
  show "merge B E = deduplicate B @ filter (\<lambda>k. k \<notin> set (deduplicate B)) (deduplicate E)"
    by (simp add: merge_def deduplicate_append)
  show "subseq (deduplicate B) (map lower_strip B)"
    by (rule sub)
  have "subseq (filter (\<lambda>k. k \<notin> set (deduplicate B)) (deduplicate E)) (deduplicate E)"
    by (rule subseq_filter_left)
  then show "subseq (filter (\<lambda>k. k \<notin> set (deduplicate B)) (deduplicate E)) (map lower_strip E)"
    using sub [of E] by (rule subseq_order.trans)
  show "deduplicate B = firsts (filter (\<lambda>k. k \<noteq> []) (map lower_strip B)) {}"
    by (rule deduplicate_firsts)
  show "filter (\<lambda>k. k \<notin> set (deduplicate B)) (deduplicate E) =
     firsts (filter (\<lambda>k. k \<noteq> []) (map lower_strip E)) (lower_strip ` set B)"
    by (rule new_keywords_firsts)
  show "set (merge B E) = lower_strip ` (set B \<union> set E) - {[]}"
    by (simp add: merge_def set_deduplicate)
  show "merge [''track'', ''fx''] [''track'', ''reverb'', ''fx'', ''echo'']
      = [''track'', ''fx'', ''reverb'', ''echo'']"
    by code_simp
qed

theorem merge_base_first_witness:
  "merge [''Track '', ''FX''] [''fx'', ''Reverb'', ''track'', ''reverb'']
     = deduplicate [''Track '', ''FX'']
       @ filter (\<lambda>k. k \<notin> set (deduplicate [''Track '', ''FX'']))
           (deduplicate [''fx'', ''Reverb'', ''track'', ''reverb'']) \<and>
   deduplicate [''Track '', ''FX''] = [''track'', ''fx''] \<and>
   deduplicate [''fx'', ''Reverb'', ''track'', ''reverb''] = [''fx'', ''reverb'', ''track''] \<and>
   set (merge [''Track '', ''FX''] [''fx'', ''Reverb'', ''track'', ''reverb''])
     = lower_strip ` (set [''Track '', ''FX''] \<union> set [''fx'', ''Reverb'', ''track'', ''reverb''])
       - {[]} \<and>
   merge [''Track '', ''FX''] [''fx'', ''Reverb'', ''track'', ''reverb'']
     = [''track'', ''fx'', ''reverb'']"
proof -
  have a: "deduplicate [''Track '', ''FX''] = [''track'', ''fx'']"
    and b: "deduplicate [''fx'', ''Reverb'', ''track'', ''reverb''] = [''fx'', ''reverb'', ''track'']"
    and c: "merge [''Track '', ''FX''] [''fx'', ''Reverb'', ''track'', ''reverb'']
      = [''track'', ''fx'', ''reverb'']"
    by code_simp+
  from a b c show ?thesis
    using merge_base_first [of "[''Track '', ''FX'']" "[''fx'', ''Reverb'', ''track'', ''reverb'']"]
    by blast
qed

text \<open>
  Claim C4. No two entries of the merged list are equal after lowercasing and trimming:
  the normal forms of the entries are pairwise distinct (and so are the entries).
\<close>

theorem merge_distinct:
  "distinct (map lower_strip (merge B E)) \<and> distinct (merge B E)"
  by (simp add: merge_def map_lower_strip_deduplicate distinct_deduplicate)

theorem merge_distinct_witness:
  "distinct (map lower_strip (merge [''Reverb'', ''reverb ''] ['' REVERB'', ''echo''])) \<and>
   merge [''Reverb'', ''reverb ''] ['' REVERB'', ''echo''] = [''reverb'', ''echo'']"
proof -
  have "merge [''Reverb'', ''reverb ''] ['' REVERB'', ''echo''] = [''reverb'', ''echo'']"
    by code_simp
  then show ?thesis
    using merge_distinct [of "[''Reverb'', ''reverb '']" "['' REVERB'', ''echo'']"]
    by simp
qed

text \<open>
  Claim C5. Every base keyword whose normal form (lowercased, trimmed) has at least two
  characters appears, in that normal form, in the merged list.
\<close>

theorem merge_keeps_base:
  "\<forall>b \<in> set B. 2 \<le> length (lower_strip b) \<longrightarrow> lower_strip b \<in> set (merge B E)"
  by (auto simp: merge_def set_deduplicate)

theorem merge_keeps_base_witness:
  "'' FX '' \<in> set [''Track'', '' FX ''] \<and> 2 \<le> length (lower_strip '' FX '') \<and>
   lower_strip '' FX '' \<in> set (merge [''Track'', '' FX ''] [''fx'', ''echo''])"
proof -
  have "'' FX '' \<in> set [''Track'', '' FX '']"
    by simp
  moreover have "2 \<le> length (lower_strip '' FX '')"
    by code_simp
  ultimately show ?thesis
    using merge_keeps_base [of "[''Track'', '' FX '']" "[''fx'', ''echo'']"]
    by simp
qed



section \<open>What \<open>deduplicate\<close> returns\<close>



section \<open>The two paths of the parser\<close>

lemma normalize_loop_filter:
  "normalize_loop items normalized =
     normalized @ filter (\<lambda>k. 1 < length k) (map lower_strip (json_strings items))"
  by (induction items normalized rule: normalize_loop.induct)
     (auto simp: Let_def lower_strip_def)

lemma length_strip_lower: "length (strip (lower kw)) = length (strip kw)"
  by (metis lower_strip_commute length_lower)

lemma fallback_extract_filter:
  "fallback_extract content =
     filter (\<lambda>k. 1 < length k) (map lower_strip (findall_quoted content))"
proof -
  have "(strip kw \<noteq> [] \<and> 1 < length (strip kw)) = (1 < length (lower_strip kw))" for kw
    by (auto simp: lower_strip_def length_strip_lower)
  then show ?thesis
    by (simp add: fallback_extract_def filter_map comp_def lower_strip_def)
qed

lemma parse_content_array:
  assumes "loads (clean_content raw) = Inr (JArray items)"
  shows "parse_content loads raw =
     Inr (filter (\<lambda>k. 1 < length k) (map lower_strip (json_strings items)))"
  using assms by (simp add: parse_content_def normalize_loop_filter)

lemma parse_content_fallback:
  assumes "loads (clean_content raw) = Inl JSONDecodeError"
  shows "parse_content loads raw =
     Inr (filter (\<lambda>k. 1 < length k) (map lower_strip (findall_quoted (clean_content raw))))"
  using assms by (simp add: parse_content_def fallback_extract_filter)

lemma parse_content_other:
  assumes "loads (clean_content raw) = Inr v" and "\<not> is_array v"
  shows "parse_content loads raw = Inr []"
  using assms by (cases v) (simp_all add: parse_content_def)


lemma findall_quoted_skip:
  "CHR 0x22 \<notin> set p \<Longrightarrow> findall_quoted (p @ rest) = findall_quoted rest"
  by (induction p) auto

lemma findall_quoted_none:
  "CHR 0x22 \<notin> set p \<Longrightarrow> findall_quoted p = []"
  using findall_quoted_skip [of p "[]"] by simp

lemma findall_quoted_match:
  assumes "k \<noteq> []" and "CHR 0x22 \<notin> set k"
  shows "findall_quoted (CHR 0x22 # k @ CHR 0x22 # rest) = k # findall_quoted rest"
proof -
  from assms(2) have t: "takeWhile (\<lambda>x. x \<noteq> CHR 0x22) (k @ CHR 0x22 # rest) = k"
    by (induction k) auto
  from assms(2) have d: "dropWhile (\<lambda>x. x \<noteq> CHR 0x22) (k @ CHR 0x22 # rest) = CHR 0x22 # rest"
    by (induction k) auto
  from assms(1) show ?thesis
    by (simp only: findall_quoted.simps t d) simp
qed

lemma findall_quoted_empty_pair:
  "findall_quoted (CHR 0x22 # CHR 0x22 # rest) = findall_quoted (CHR 0x22 # rest)"
  by (subst findall_quoted.simps) simp

lemma findall_quoted_unclosed:
  assumes "CHR 0x22 \<notin> set k"
  shows "findall_quoted (CHR 0x22 # k) = []"
proof -
  from assms have "dropWhile (\<lambda>x. x \<noteq> CHR 0x22) k = []"
    by auto
  then have "findall_quoted (CHR 0x22 # k) = findall_quoted k"
    by (subst findall_quoted.simps) simp
  with assms show ?thesis
    by (simp add: findall_quoted_none)
qed





section \<open>The parser\<close>

text \<open>
  Claim C1, as amended. In both paths the parser lowercases and trims every candidate and
  drops those of at most one character, but it folds no duplicates: the result is the
  list of all surviving candidates in scan order (the strings of the decoded array, or
  the quoted substrings of the cleaned text). The payload \<open>["Reverb", "REVERB ", "echo"]\<close>
  yields \<open>["reverb", "reverb", "echo"]\<close>; the first occurrence alone is kept only by
  \<open>deduplicate\<close> in the merge, which gives \<open>["reverb", "echo"]\<close>.
\<close>

theorem parser_keeps_every_occurrence:
  "(loads (clean_content raw) = Inr (JArray items) \<longrightarrow>
      parse_content loads raw =
        Inr (filter (\<lambda>k. 1 < length k) (map lower_strip (json_strings items)))) \<and>
   (loads (clean_content raw) = Inl JSONDecodeError \<longrightarrow>
      parse_content loads raw =
        Inr (filter (\<lambda>k. 1 < length k)
               (map lower_strip (findall_quoted (clean_content raw))))) \<and>
   parse_content json_loads ''[\"Reverb\", \"REVERB \", \"echo\"]''
     = Inr [''reverb'', ''reverb'', ''echo''] \<and>
   merge [] [''reverb'', ''reverb'', ''echo''] = [''reverb'', ''echo'']"
proof (intro conjI impI)
  assume "loads (clean_content raw) = Inr (JArray items)"
  then show "parse_content loads raw =
        Inr (filter (\<lambda>k. 1 < length k) (map lower_strip (json_strings items)))"
    by (rule parse_content_array)
next
  assume "loads (clean_content raw) = Inl JSONDecodeError"
  then show "parse_content loads raw =
        Inr (filter (\<lambda>k. 1 < length k)
               (map lower_strip (findall_quoted (clean_content raw))))"
    by (rule parse_content_fallback)
next
  show "parse_content json_loads ''[\"Reverb\", \"REVERB \", \"echo\"]''
      = Inr [''reverb'', ''reverb'', ''echo'']"
    by code_simp
next
  show "merge [] [''reverb'', ''reverb'', ''echo''] = [''reverb'', ''echo'']"
    by code_simp
qed


theorem parser_keeps_every_occurrence_witness:
  "json_loads (clean_content ''[\"Echo\", 7, \"x\", \"ECHO\"]'')
     = Inr (JArray [JString ''Echo'', JNumber ''7'', JString ''x'', JString ''ECHO'']) \<and>
   parse_content json_loads ''[\"Echo\", 7, \"x\", \"ECHO\"]'' = Inr [''echo'', ''echo''] \<and>
   json_loads (clean_content ''say \"Echo\" or \"x\" or \"ECHO\"'') = Inl JSONDecodeError \<and>
   parse_content json_loads ''say \"Echo\" or \"x\" or \"ECHO\"'' = Inr [''echo'', ''echo'']"
proof -
  have a: "json_loads (clean_content ''[\"Echo\", 7, \"x\", \"ECHO\"]'')
      = Inr (JArray [JString ''Echo'', JNumber ''7'', JString ''x'', JString ''ECHO''])"
    by code_simp
  have b: "json_loads (clean_content ''say \"Echo\" or \"x\" or \"ECHO\"'') = Inl JSONDecodeError"
    by code_simp
  have c: "filter (\<lambda>k. 1 < length k)
      (map lower_strip
        (json_strings [JString ''Echo'', JNumber ''7'', JString ''x'', JString ''ECHO'']))
      = [''echo'', ''echo'']"
    by code_simp
  have d: "filter (\<lambda>k. 1 < length k)
      (map lower_strip (findall_quoted (clean_content ''say \"Echo\" or \"x\" or \"ECHO\"'')))
      = [''echo'', ''echo'']"
    by code_simp
  have "parse_content json_loads ''[\"Echo\", 7, \"x\", \"ECHO\"]'' =
      Inr (filter (\<lambda>k. 1 < length k)
        (map lower_strip
          (json_strings [JString ''Echo'', JNumber ''7'', JString ''x'', JString ''ECHO''])))"
    using a parser_keeps_every_occurrence
            [of json_loads "''[\"Echo\", 7, \"x\", \"ECHO\"]''"
                "[JString ''Echo'', JNumber ''7'', JString ''x'', JString ''ECHO'']"]
    by blast
  then have e: "parse_content json_loads ''[\"Echo\", 7, \"x\", \"ECHO\"]'' = Inr [''echo'', ''echo'']"
    by (simp only: c)
  have "parse_content json_loads ''say \"Echo\" or \"x\" or \"ECHO\"'' =
      Inr (filter (\<lambda>k. 1 < length k)
        (map lower_strip (findall_quoted (clean_content ''say \"Echo\" or \"x\" or \"ECHO\"''))))"
    using b parser_keeps_every_occurrence [of json_loads "''say \"Echo\" or \"x\" or \"ECHO\"''"]
    by blast
  then have f: "parse_content json_loads ''say \"Echo\" or \"x\" or \"ECHO\"'' = Inr [''echo'', ''echo'']"
    by (simp only: d)
  from a e b f show ?thesis by blast
qed

text \<open>
  Claim C1 as stated fails in both paths: the structured payload
  \<open>["Reverb", "REVERB ", "echo"]\<close> yields \<open>reverb\<close> twice, and so does the unstructured
  text \<open>try "Reverb" or "REVERB "\<close> through the fallback.
\<close>

theorem parser_output_repeats:
  "parse_content json_loads ''[\"Reverb\", \"REVERB \", \"echo\"]''
     = Inr [''reverb'', ''reverb'', ''echo''] \<and>
   json_loads (clean_content ''try \"Reverb\" or \"REVERB \"'') = Inl JSONDecodeError \<and>
   parse_content json_loads ''try \"Reverb\" or \"REVERB \"'' = Inr [''reverb'', ''reverb''] \<and>
   [''reverb'', ''reverb'', ''echo''] \<noteq> [''reverb'', ''echo''] \<and>
   \<not> distinct (map lower_strip [''reverb'', ''reverb'', ''echo''])"
proof (intro conjI)
  show "parse_content json_loads ''[\"Reverb\", \"REVERB \", \"echo\"]''
     = Inr [''reverb'', ''reverb'', ''echo'']"
    by code_simp
  show "json_loads (clean_content ''try \"Reverb\" or \"REVERB \"'') = Inl JSONDecodeError"
    by code_simp
  show "parse_content json_loads ''try \"Reverb\" or \"REVERB \"'' = Inr [''reverb'', ''reverb'']"
    by code_simp
  show "[''reverb'', ''reverb'', ''echo''] \<noteq> [''reverb'', ''echo'']"
    by simp
  show "\<not> distinct (map lower_strip [''reverb'', ''reverb'', ''echo''])"
    by simp
qed

text \<open>
  Claim C6, as amended. When the decoder rejects the cleaned text (the payload trimmed,
  without its fence markers, trimmed again), the parser scans that same cleaned text, not
  the payload as received, from left to right: text without a quotation mark gives
  nothing; at a quotation mark followed by one or more other characters and then a
  quotation mark, the characters between the two are a candidate and the scan goes on
  after the closing mark; a quotation mark followed at once by another is passed over,
  and the second one is tried as an opening mark; a quotation mark with no later one
  gives nothing. The candidates whose trimmed form has more than one character are
  returned lowercased and trimmed, in scan order; lowercasing changes no length on the
  code points U+0000 .. U+00FF, so there this is the filter of the structured path.
  The text \<open>Sure! Here: "delay" and "verb" are related.\<close> is rejected by the decoder
  and yields \<open>["delay", "verb"]\<close>; in \<open>use "" or "reverb" or "echo"\<close> the empty pair shifts
  the pairing of the marks and the result is \<open>["or", "or"]\<close>.
\<close>

theorem fallback_on_decode_error:
  "(loads (clean_content raw) = Inl JSONDecodeError \<longrightarrow>
      parse_content loads raw = Inr (fallback_extract (clean_content raw)) \<and>
      fallback_extract (clean_content raw) =
        filter (\<lambda>k. 1 < length k) (map lower_strip (findall_quoted (clean_content raw)))) \<and>
   (CHR 0x22 \<notin> set p \<longrightarrow> findall_quoted p = []) \<and>
   (CHR 0x22 \<notin> set p \<and> CHR 0x22 \<notin> set k \<longrightarrow> findall_quoted (p @ CHR 0x22 # k) = []) \<and>
   (CHR 0x22 \<notin> set p \<longrightarrow>
      findall_quoted (p @ CHR 0x22 # CHR 0x22 # rest) = findall_quoted (CHR 0x22 # rest)) \<and>
   (CHR 0x22 \<notin> set p \<and> k \<noteq> [] \<and> CHR 0x22 \<notin> set k \<longrightarrow>
      findall_quoted (p @ CHR 0x22 # k @ CHR 0x22 # rest) = k # findall_quoted rest) \<and>
   json_loads (clean_content ''Sure! Here: \"delay\" and \"verb\" are related.'')
     = Inl JSONDecodeError \<and>
   parse_content json_loads ''Sure! Here: \"delay\" and \"verb\" are related.''
     = Inr [''delay'', ''verb''] \<and>
   json_loads (clean_content ''use \"\" or \"reverb\" or \"echo\"'') = Inl JSONDecodeError \<and>
   parse_content json_loads ''use \"\" or \"reverb\" or \"echo\"'' = Inr [''or'', ''or'']"
proof (intro conjI impI)
  assume "loads (clean_content raw) = Inl JSONDecodeError"
  then show "parse_content loads raw = Inr (fallback_extract (clean_content raw))"
    by (simp only: parse_content_fallback fallback_extract_filter)
next
  show "fallback_extract (clean_content raw) =
        filter (\<lambda>k. 1 < length k) (map lower_strip (findall_quoted (clean_content raw)))"
    by (rule fallback_extract_filter)
next
  assume "CHR 0x22 \<notin> set p"
  then show "findall_quoted p = []"
    by (rule findall_quoted_none)
next
  assume "CHR 0x22 \<notin> set p \<and> CHR 0x22 \<notin> set k"
  then have np: "CHR 0x22 \<notin> set p" and nk: "CHR 0x22 \<notin> set k"
    by blast+
  from np have "findall_quoted (p @ CHR 0x22 # k) = findall_quoted (CHR 0x22 # k)"
    by (rule findall_quoted_skip)
  also from nk have "\<dots> = []"
    by (rule findall_quoted_unclosed)
  finally show "findall_quoted (p @ CHR 0x22 # k) = []" .
next
  assume "CHR 0x22 \<notin> set p"
  then have "findall_quoted (p @ CHR 0x22 # CHR 0x22 # rest)
      = findall_quoted (CHR 0x22 # CHR 0x22 # rest)"
    by (rule findall_quoted_skip)
  also have "\<dots> = findall_quoted (CHR 0x22 # rest)"
    by (rule findall_quoted_empty_pair)
  finally show "findall_quoted (p @ CHR 0x22 # CHR 0x22 # rest) = findall_quoted (CHR 0x22 # rest)" .
next
  assume "CHR 0x22 \<notin> set p \<and> k \<noteq> [] \<and> CHR 0x22 \<notin> set k"
  then have np: "CHR 0x22 \<notin> set p" and k: "k \<noteq> []" and nk: "CHR 0x22 \<notin> set k"
    by blast+
  from np have "findall_quoted (p @ CHR 0x22 # k @ CHR 0x22 # rest)
      = findall_quoted (CHR 0x22 # k @ CHR 0x22 # rest)"
    by (rule findall_quoted_skip)
  also from k nk have "\<dots> = k # findall_quoted rest"
    by (rule findall_quoted_match)
  finally show "findall_quoted (p @ CHR 0x22 # k @ CHR 0x22 # rest) = k # findall_quoted rest" .
next
  show "json_loads (clean_content ''Sure! Here: \"delay\" and \"verb\" are related.'')
      = Inl JSONDecodeError"
    by code_simp
next
  show "parse_content json_loads ''Sure! Here: \"delay\" and \"verb\" are related.''
      = Inr [''delay'', ''verb'']"
    by code_simp
next
  show "json_loads (clean_content ''use \"\" or \"reverb\" or \"echo\"'') = Inl JSONDecodeError"
    by code_simp
next
  show "parse_content json_loads ''use \"\" or \"reverb\" or \"echo\"'' = Inr [''or'', ''or'']"
    by code_simp
qed

theorem fallback_on_decode_error_witness:
  "json_loads (clean_content ''```json Terms: \"Delay \", \"v\", \"Verb\"'') = Inl JSONDecodeError \<and>
   clean_content ''```json Terms: \"Delay \", \"v\", \"Verb\"'' = ''Terms: \"Delay \", \"v\", \"Verb\"'' \<and>
   parse_content json_loads ''```json Terms: \"Delay \", \"v\", \"Verb\"'' = Inr [''delay'', ''verb''] \<and>
   findall_quoted ''no marks'' = [] \<and>
   findall_quoted (''an '' @ CHR 0x22 # ''open mark'') = [] \<and>
   findall_quoted (''x '' @ CHR 0x22 # CHR 0x22 # '' y'') = findall_quoted (CHR 0x22 # '' y'') \<and>
   findall_quoted (''see '' @ CHR 0x22 # ''ab'' @ CHR 0x22 # '' now'')
     = ''ab'' # findall_quoted '' now''"
proof -
  have a: "json_loads (clean_content ''```json Terms: \"Delay \", \"v\", \"Verb\"'')
      = Inl JSONDecodeError"
    by code_simp
  have b: "clean_content ''```json Terms: \"Delay \", \"v\", \"Verb\"''
      = ''Terms: \"Delay \", \"v\", \"Verb\"''"
    by code_simp
  have c: "fallback_extract (clean_content ''```json Terms: \"Delay \", \"v\", \"Verb\"'')
      = [''delay'', ''verb'']"
    by code_simp
  have "parse_content json_loads ''```json Terms: \"Delay \", \"v\", \"Verb\"''
      = Inr (fallback_extract (clean_content ''```json Terms: \"Delay \", \"v\", \"Verb\"''))"
    using a fallback_on_decode_error
            [where loads = json_loads and raw = "''```json Terms: \"Delay \", \"v\", \"Verb\"''"]
    by blast
  then have d: "parse_content json_loads ''```json Terms: \"Delay \", \"v\", \"Verb\"''
      = Inr [''delay'', ''verb'']"
    by (simp only: c)
  have h1: "CHR 0x22 \<notin> set ''no marks''"
    and h2: "CHR 0x22 \<notin> set ''an ''" and h3: "CHR 0x22 \<notin> set ''open mark''"
    and h4: "CHR 0x22 \<notin> set ''x ''"
    and h5: "CHR 0x22 \<notin> set ''see ''" and h6: "''ab'' \<noteq> []" and h7: "CHR 0x22 \<notin> set ''ab''"
    by simp_all
  have e: "findall_quoted ''no marks'' = []"
    using h1 fallback_on_decode_error [where p = "''no marks''"] by blast
  have f: "findall_quoted (''an '' @ CHR 0x22 # ''open mark'') = []"
    using h2 h3 fallback_on_decode_error [where p = "''an ''" and k = "''open mark''"] by blast
  have g: "findall_quoted (''x '' @ CHR 0x22 # CHR 0x22 # '' y'') = findall_quoted (CHR 0x22 # '' y'')"
    using h4 fallback_on_decode_error [where p = "''x ''" and rest = "'' y''"] by blast
  have h: "findall_quoted (''see '' @ CHR 0x22 # ''ab'' @ CHR 0x22 # '' now'')
      = ''ab'' # findall_quoted '' now''"
    using h5 h6 h7
      fallback_on_decode_error [where p = "''see ''" and k = "''ab''" and rest = "'' now''"]
    by blast
  from a b d e f g h show ?thesis by blast
qed

text \<open>
  Claim C6 as stated fails: the fallback does not scan the raw text. On the payload
  \<open>see "a```b"\<close> the fence marker inside the quotation marks is removed before the scan,
  so the parser returns \<open>["ab"]\<close>, whereas the quoted substring of the raw text gives
  \<open>["a```b"]\<close>.
\<close>

theorem fallback_scans_cleaned_text:
  "json_loads (clean_content ''see \"a```b\"'') = Inl JSONDecodeError \<and>
   parse_content json_loads ''see \"a```b\"'' = Inr [''ab''] \<and>
   fallback_extract ''see \"a```b\"'' = [''a```b'']"
proof (intro conjI)
  show "json_loads (clean_content ''see \"a```b\"'') = Inl JSONDecodeError"
    by code_simp
  show "parse_content json_loads ''see \"a```b\"'' = Inr [''ab'']"
    by code_simp
  show "fallback_extract ''see \"a```b\"'' = [''a```b'']"
    by code_simp
qed




text \<open>
  Claim C9. When the cleaned payload decodes to a value that is not an array, the parser
  returns the empty list and the quoted substrings are not extracted: the object
  \<open>{"a": "bb"}\<close> and the string \<open>"reverb"\<close> give \<open>[]\<close> although the fallback would find
  \<open>bb\<close> and \<open>reverb\<close> in them, and the number \<open>42\<close> gives \<open>[]\<close>.
\<close>

theorem non_array_gives_empty:
  "(\<forall>v. loads (clean_content raw) = Inr v \<and> \<not> is_array v \<longrightarrow>
        parse_content loads raw = Inr []) \<and>
   json_loads (clean_content ''{\"a\": \"bb\"}'') = Inr (JObject [(''a'', JString ''bb'')]) \<and>
   parse_content json_loads ''{\"a\": \"bb\"}'' = Inr [] \<and>
   fallback_extract (clean_content ''{\"a\": \"bb\"}'') = [''bb''] \<and>
   json_loads (clean_content ''\"reverb\"'') = Inr (JString ''reverb'') \<and>
   parse_content json_loads ''\"reverb\"'' = Inr [] \<and>
   fallback_extract (clean_content ''\"reverb\"'') = [''reverb''] \<and>
   json_loads (clean_content ''42'') = Inr (JNumber ''42'') \<and>
   parse_content json_loads ''42'' = Inr []"
proof (intro conjI)
  show "\<forall>v. loads (clean_content raw) = Inr v \<and> \<not> is_array v \<longrightarrow>
        parse_content loads raw = Inr []"
    using parse_content_other by blast
  show "json_loads (clean_content ''{\"a\": \"bb\"}'') = Inr (JObject [(''a'', JString ''bb'')])"
    by code_simp
  show "parse_content json_loads ''{\"a\": \"bb\"}'' = Inr []"
    by code_simp
  show "fallback_extract (clean_content ''{\"a\": \"bb\"}'') = [''bb'']"
    by code_simp
  show "json_loads (clean_content ''\"reverb\"'') = Inr (JString ''reverb'')"
    by code_simp
  show "parse_content json_loads ''\"reverb\"'' = Inr []"
    by code_simp
  show "fallback_extract (clean_content ''\"reverb\"'') = [''reverb'']"
    by code_simp
  show "json_loads (clean_content ''42'') = Inr (JNumber ''42'')"
    by code_simp
  show "parse_content json_loads ''42'' = Inr []"
    by code_simp
qed

theorem non_array_gives_empty_witness:
  "json_loads (clean_content ''```json {\"terms\": [\"delay\", \"verb\"]} ```'')
     = Inr (JObject [(''terms'', JArray [JString ''delay'', JString ''verb''])]) \<and>
   \<not> is_array (JObject [(''terms'', JArray [JString ''delay'', JString ''verb''])]) \<and>
   parse_content json_loads ''```json {\"terms\": [\"delay\", \"verb\"]} ```'' = Inr []"
proof -
  have a: "json_loads (clean_content ''```json {\"terms\": [\"delay\", \"verb\"]} ```'')
     = Inr (JObject [(''terms'', JArray [JString ''delay'', JString ''verb''])])"
    by code_simp
  have b: "\<not> is_array (JObject [(''terms'', JArray [JString ''delay'', JString ''verb''])])"
    by simp
  from a b show ?thesis
    using non_array_gives_empty
            [of json_loads "''```json {\"terms\": [\"delay\", \"verb\"]} ```''"]
    by blast
qed

end
